theory Spec2Isabelle
  imports Complex_Main "HOL-Library.Sublist"
begin

section \<open>The playback controller of NovaDrive-Player (src/components/Player.tsx)\<close>

text \<open>
  The component \<open>Player\<close> keeps React state (\<open>useState\<close>), mutable references
  (\<open>useRef\<close>) and talks to two platform objects: the audio element and the Web Audio
  context. The model is a record of all of these, and every handler of the component is a
  function from that record to the updated record.

  The two \<open>async\<close> functions suspend at an \<open>await\<close> of the promise returned by
  \<open>play()\<close>. The code after the \<open>await\<close> is a continuation (\<open>cont\<close>) stored in the
  record until the platform settles that promise; \<open>resume\<close> is the code after the
  \<open>await\<close>, \<open>settle\<close> is the platform settling a promise and the event loop running the
  continuations that wait for it, in the order in which they were registered.

  The platform is not part of the repository. It is left free: a start may be fulfilled or
  rejected at any later event, with any exception. Every call the component makes on a
  platform object is appended to the log \<open>ops\<close>.
\<close>

subsection \<open>Data\<close>

text \<open>
  Modelled from the spec: the type \<open>Track\<close> of \<open>../types\<close>, which is not among the
  sources (identifier, display name, artist, cover-art reference, source URL).
\<close>

record track =
  track_id :: string
  track_name :: string
  artist :: string
  coverArt :: string
  url :: string

text \<open>A thrown value; the code only ever inspects its \<open>name\<close>.\<close>

datatype exn = Exn (exn_name: string)

datatype outcome = Fulfilled | Rejected exn

datatype pstate = Pending | Settled outcome

text \<open>
  A promise returned by \<open>play()\<close>, identified by its index in the table \<open>promises\<close>.
  \<open>issued_for\<close> is the \<open>src\<close> the element had when \<open>play()\<close> was called.
\<close>

record promise =
  issued_for :: string
  status :: pstate

datatype ctx_state = Suspended | Running | Closed

text \<open>The fields of the audio element that the component reads or writes.\<close>

record audio_element =
  src :: string
  position :: real
  el_duration :: real
  readyState :: nat
  el_volume :: real

text \<open>Calls on the platform objects, in the order in which the component makes them.\<close>

datatype op =
    Load
  | Play nat
  | Pause
  | NewAudioContext
  | CreateMediaElementSource
  | CreateAnalyser
  | ConnectSourceAnalyser
  | ConnectAnalyserDestination
  | SetFftSize nat
  | Resume

text \<open>
  The three places where the component waits for a start, each with the promise awaited:
  line 63 (\<open>attemptPlay\<close>), line 87 (\<open>togglePlay\<close>, pause branch) and line 102
  (\<open>togglePlay\<close>, play branch).
\<close>

datatype cont = AttemptPlayAwait nat | TogglePauseAwait nat | TogglePlayAwait nat

fun promise_of :: "cont \<Rightarrow> nat" where
  "promise_of (AttemptPlayAwait p) = p"
| "promise_of (TogglePauseAwait p) = p"
| "promise_of (TogglePlayAwait p) = p"

record player =
  \<comment> \<open>the prop\<close>
  track :: "track option"
  \<comment> \<open>\<open>useState\<close>, lines 14 to 19\<close>
  isPlaying :: bool
  currentTime :: real
  duration :: real
  volume :: real
  error :: "string option"
  analyser :: "nat option"
  \<comment> \<open>\<open>useRef\<close>, lines 21 to 24\<close>
  audioRef :: "audio_element option"
  audioCtxRef :: "ctx_state option"
  playPromiseRef :: "nat option"
  isInitialMount :: bool
  \<comment> \<open>the platform and the event loop\<close>
  promises :: "promise list"
  waiting :: "cont list"
  ops :: "op list"
  console :: "string list"
  unhandled :: "exn list"
  newAudioContext :: "exn + ctx_state"

text \<open>
  \<open>analyser\<close> holds the \<open>fftSize\<close> of the analyser node. \<open>unhandled\<close> collects the
  exceptions that leave a handler uncaught (for an \<open>async\<close> handler, the rejection of the
  promise it returns, which nobody awaits). \<open>newAudioContext\<close> is what the constructor of
  line 30 does in this browser: it throws, or it yields a context in the given state.
\<close>

subsection \<open>The audio graph (lines 27 to 42)\<close>

definition initAudioContext :: "player \<Rightarrow> exn + player" where
  "initAudioContext s =
     (case (if audioCtxRef s = None \<and> audioRef s \<noteq> None then
              (case newAudioContext s of
                 Inl e \<Rightarrow> Inl e
               | Inr st \<Rightarrow>
                   Inr (s\<lparr>ops := ops s @ [NewAudioContext, CreateMediaElementSource,
                                         CreateAnalyser, ConnectSourceAnalyser,
                                         ConnectAnalyserDestination, SetFftSize 256],
                          audioCtxRef := Some st,
                          analyser := Some 256\<rparr>))
            else Inr s) of
        Inl e \<Rightarrow> Inl e
      | Inr s1 \<Rightarrow>
          Inr (if audioCtxRef s1 = Some Suspended then s1\<lparr>ops := ops s1 @ [Resume]\<rparr>
               else s1))"

subsection \<open>The code after each await\<close>

text \<open>
  \<open>pauseNow\<close> is lines 89 and 90. After an \<open>await\<close> the element may have been
  unmounted; \<open>audioRef.current.pause()\<close> then throws a \<open>TypeError\<close> inside the
  \<open>try\<close>, which line 92 logs.
\<close>

definition pauseNow :: "player \<Rightarrow> player" where
  "pauseNow s =
     (case audioRef s of
        None \<Rightarrow> s\<lparr>console := console s @ [''Pause failed:'']\<rparr>
      | Some el \<Rightarrow> s\<lparr>ops := ops s @ [Pause], isPlaying := False\<rparr>)"

fun resume :: "cont \<Rightarrow> outcome \<Rightarrow> player \<Rightarrow> player" where
  "resume (AttemptPlayAwait p) Fulfilled s =
     s\<lparr>isPlaying := True, playPromiseRef := None\<rparr>"
| "resume (AttemptPlayAwait p) (Rejected e) s =
     (let s1 = (if exn_name e \<noteq> ''AbortError''
                then s\<lparr>console := console s @ [''Playback failed or was prevented:'']\<rparr>
                else s)
      in s1\<lparr>isPlaying := False, playPromiseRef := None\<rparr>)"
| "resume (TogglePauseAwait p) Fulfilled s = pauseNow s"
| "resume (TogglePauseAwait p) (Rejected e) s =
     s\<lparr>console := console s @ [''Pause failed:'']\<rparr>"
| "resume (TogglePlayAwait p) Fulfilled s =
     s\<lparr>isPlaying := True, error := None, playPromiseRef := None\<rparr>"
| "resume (TogglePlayAwait p) (Rejected e) s =
     s\<lparr>console := console s @ [''Manual play failed:''],
       error := Some ''Unable to play this source.'',
       playPromiseRef := None\<rparr>"

text \<open>
  \<open>await p k\<close>: the function suspends at promise \<open>p\<close> with \<open>k\<close> left to run. In all
  three functions the \<open>await\<close> is the last thing done before control returns to the event
  loop, so a promise that is already settled runs \<open>k\<close> at once. (The last branch, a
  promise outside the table, does not occur in a run: see \<open>well_formed\<close>.)
\<close>

definition await :: "nat \<Rightarrow> cont \<Rightarrow> player \<Rightarrow> player" where
  "await p k s =
     (if p < length (promises s) then
        (case status (promises s ! p) of
           Pending \<Rightarrow> s\<lparr>waiting := waiting s @ [k]\<rparr>
         | Settled out \<Rightarrow> resume k out s)
      else s\<lparr>waiting := waiting s @ [k]\<rparr>)"

text \<open>
  \<open>audioRef.current.play()\<close> followed by the assignment to \<open>playPromiseRef.current\<close>
  (lines 61 and 101): the platform returns a fresh pending promise. It always returns a
  promise (the type of \<open>play\<close> is \<open>Promise<void>\<close>), so the test of line 62 holds.
\<close>

definition play :: "audio_element \<Rightarrow> player \<Rightarrow> nat \<times> player" where
  "play el s =
     (let p = length (promises s)
      in (p, s\<lparr>ops := ops s @ [Play p],
                promises := promises s @ [\<lparr>issued_for = src el, status = Pending\<rparr>],
                playPromiseRef := Some p\<rparr>))"

subsection \<open>The effect on the track (lines 44 to 79)\<close>

definition attemptPlay :: "player \<Rightarrow> player" where
  "attemptPlay s =
     (case audioRef s of
        None \<Rightarrow> s
      | Some el \<Rightarrow>
          (case initAudioContext s of
             Inl e \<Rightarrow>
               (let s1 = (if exn_name e \<noteq> ''AbortError''
                          then s\<lparr>console := console s @ [''Playback failed or was prevented:'']\<rparr>
                          else s)
                in s1\<lparr>isPlaying := False, playPromiseRef := None\<rparr>)
           | Inr s1 \<Rightarrow>
               (case play el s1 of (p, s2) \<Rightarrow> await p (AttemptPlayAwait p) s2)))"

definition trackEffect :: "player \<Rightarrow> player" where
  "trackEffect s =
     (if track s \<noteq> None \<and> audioRef s \<noteq> None then
        (let s1 = s\<lparr>error := None, ops := ops s @ [Load]\<rparr>
         in if isInitialMount s1 then s1\<lparr>isInitialMount := False\<rparr>
            else attemptPlay s1)
      else s)"

subsection \<open>The handlers (lines 81 to 138)\<close>

definition togglePlay :: "player \<Rightarrow> player" where
  "togglePlay s =
     (case audioRef s of
        None \<Rightarrow> s
      | Some el \<Rightarrow>
          (case track s of
             None \<Rightarrow> s
           | Some t \<Rightarrow>
               if isPlaying s then
                 (case playPromiseRef s of
                    Some p \<Rightarrow> await p (TogglePauseAwait p) s
                  | None \<Rightarrow> pauseNow s)
               else
                 (case initAudioContext s of
                    Inl e \<Rightarrow> s\<lparr>unhandled := unhandled s @ [e]\<rparr>
                  | Inr s1 \<Rightarrow>
                      (let s2 = (if readyState el = 0 then s1\<lparr>ops := ops s1 @ [Load]\<rparr>
                                 else s1)
                       in case play el s2 of (p, s3) \<Rightarrow> await p (TogglePlayAwait p) s3))))"

definition handleTimeUpdate :: "player \<Rightarrow> player" where
  "handleTimeUpdate s =
     (case audioRef s of
        None \<Rightarrow> s
      | Some el \<Rightarrow> s\<lparr>currentTime := position el\<rparr>)"

definition handleLoadedMetadata :: "player \<Rightarrow> player" where
  "handleLoadedMetadata s =
     (case audioRef s of
        None \<Rightarrow> s
      | Some el \<Rightarrow> s\<lparr>duration := el_duration el\<rparr>)"

definition handleAudioError :: "player \<Rightarrow> player" where
  "handleAudioError s =
     s\<lparr>console := console s @ [''Audio source error detected''],
       error := Some ''Failed to load audio source.'',
       isPlaying := False\<rparr>"

definition handleSeek :: "real \<Rightarrow> player \<Rightarrow> player" where
  "handleSeek time s =
     (case audioRef s of
        None \<Rightarrow> s
      | Some el \<Rightarrow> s\<lparr>audioRef := Some (el\<lparr>position := time\<rparr>), currentTime := time\<rparr>)"

text \<open>The volume slider (lines 105 to 109 of the rendering).\<close>

definition handleVolume :: "real \<Rightarrow> player \<Rightarrow> player" where
  "handleVolume v s =
     (let s1 = s\<lparr>volume := v\<rparr>
      in case audioRef s1 of
           None \<Rightarrow> s1
         | Some el \<Rightarrow> s1\<lparr>audioRef := Some (el\<lparr>el_volume := v\<rparr>)\<rparr>)"

subsection \<open>Rendering, the platform and the event loop\<close>

text \<open>
  The component renders nothing without a track (line 146), so the audio element is
  mounted exactly while there is a track; a track after none mounts a fresh element.
  \<open>setTrack\<close> is a render with another \<open>track\<close> prop followed by the effect, which
  depends on \<open>[track]\<close>; \<open>mount\<close> is the first render and its effect.
\<close>

definition fresh_element :: "string \<Rightarrow> audio_element" where
  "fresh_element u =
     \<lparr>src = u, position = 0, el_duration = 0, readyState = 0, el_volume = 1\<rparr>"

definition render :: "track option \<Rightarrow> player \<Rightarrow> player" where
  "render t s =
     s\<lparr>track := t,
       audioRef :=
         (case t of
            None \<Rightarrow> None
          | Some tr \<Rightarrow>
              (case audioRef s of
                 None \<Rightarrow> Some (fresh_element (url tr))
               | Some el \<Rightarrow> Some (el\<lparr>src := url tr\<rparr>)))\<rparr>"

definition setTrack :: "track option \<Rightarrow> player \<Rightarrow> player" where
  "setTrack t s = (if t = track s then s else trackEffect (render t s))"

definition initial :: "exn + ctx_state \<Rightarrow> player" where
  "initial ctor =
     \<lparr>track = None, isPlaying = False, currentTime = 0, duration = 0, volume = 0.8,
      error = None, analyser = None, audioRef = None, audioCtxRef = None,
      playPromiseRef = None, isInitialMount = True, promises = [], waiting = [],
      ops = [], console = [], unhandled = [], newAudioContext = ctor\<rparr>"

definition mount :: "exn + ctx_state \<Rightarrow> track option \<Rightarrow> player" where
  "mount ctor t = trackEffect (render t (initial ctor))"

text \<open>
  The platform settles the pending promise \<open>p\<close>; the continuations waiting for it run in
  the order of their registration.
\<close>

definition settle :: "nat \<Rightarrow> outcome \<Rightarrow> player \<Rightarrow> player" where
  "settle p out s =
     (if p < length (promises s) \<and> status (promises s ! p) = Pending then
        fold (\<lambda>k. resume k out)
          (filter (\<lambda>k. promise_of k = p) (waiting s))
          (s\<lparr>promises := (promises s)[p := (promises s ! p)\<lparr>status := Settled out\<rparr>],
             waiting := filter (\<lambda>k. promise_of k \<noteq> p) (waiting s)\<rparr>)
      else s)"

text \<open>
  What can happen to the component. The transport button is disabled while \<open>error\<close> is
  set (lines 205 and 221), so a click reaches \<open>togglePlay\<close> only without an error. The
  events of the element exist only while the element is mounted; \<open>TimeUpdate\<close> and
  \<open>LoadedMetadata\<close> carry the position and the duration the element has when it fires
  the event. \<open>Ended\<close> calls the \<open>onNext\<close> prop, which belongs to the parent.
\<close>

datatype event =
    SetTrack "track option"
  | ClickToggle
  | Seek real
  | Volume real
  | TimeUpdate real
  | LoadedMetadata real
  | ReadyState nat
  | MediaError
  | Ended
  | Settle nat outcome
  | ContextState ctx_state

definition on_element :: "(audio_element \<Rightarrow> audio_element) \<Rightarrow> player \<Rightarrow> player" where
  "on_element f s = s\<lparr>audioRef := map_option f (audioRef s)\<rparr>"

fun step :: "event \<Rightarrow> player \<Rightarrow> player" where
  "step (SetTrack t) s = setTrack t s"
| "step ClickToggle s = (if error s = None then togglePlay s else s)"
| "step (Seek time) s = handleSeek time s"
| "step (Volume v) s = handleVolume v s"
| "step (TimeUpdate pos) s = handleTimeUpdate (on_element (\<lambda>el. el\<lparr>position := pos\<rparr>) s)"
| "step (LoadedMetadata d) s =
     handleLoadedMetadata (on_element (\<lambda>el. el\<lparr>el_duration := d\<rparr>) s)"
| "step (ReadyState n) s = on_element (\<lambda>el. el\<lparr>readyState := n\<rparr>) s"
| "step MediaError s = (if audioRef s = None then s else handleAudioError s)"
| "step Ended s = s"
| "step (Settle p out) s = settle p out s"
| "step (ContextState st) s =
     s\<lparr>audioCtxRef := map_option (\<lambda>_. st) (audioCtxRef s)\<rparr>"

definition run :: "event list \<Rightarrow> player \<Rightarrow> player" where
  "run evs s = fold step evs s"

subsection \<open>Notions used to state the properties\<close>

text \<open>A start is outstanding while its promise is pending.\<close>

definition pending :: "player \<Rightarrow> nat \<Rightarrow> bool" where
  "pending s p \<longleftrightarrow> p < length (promises s) \<and> status (promises s ! p) = Pending"

definition outstanding :: "player \<Rightarrow> nat list" where
  "outstanding s = filter (pending s) [0..<length (promises s)]"

text \<open>A pending start is stale when it was issued for a source other than the current track's.\<close>

definition stale :: "player \<Rightarrow> nat \<Rightarrow> bool" where
  "stale s p \<longleftrightarrow> pending s p \<and> map_option url (track s) \<noteq> Some (issued_for (promises s ! p))"

text \<open>The six calls of lines 30 to 35.\<close>

definition graph_ops :: "op list" where
  "graph_ops = [NewAudioContext, CreateMediaElementSource, CreateAnalyser,
                ConnectSourceAnalyser, ConnectAnalyserDestination, SetFftSize 256]"

text \<open>
  \<open>initAudioContext\<close> on a mounted element does not throw: the context exists already, or
  the constructor yields one.
\<close>

definition graph_available :: "player \<Rightarrow> bool" where
  "graph_available s \<longleftrightarrow> audioCtxRef s \<noteq> None \<or> \<not> isl (newAudioContext s)"

text \<open>
  Every continuation and the recorded handle refer to a promise of the table. This holds
  in every state of a run (\<open>well_formed_run\<close> below).
\<close>

definition well_formed :: "player \<Rightarrow> bool" where
  "well_formed s \<longleftrightarrow>
     list_all (\<lambda>k. promise_of k < length (promises s)) (waiting s)
     \<and> (case playPromiseRef s of None \<Rightarrow> True | Some p \<Rightarrow> p < length (promises s))"

text \<open>Events other than a click on the transport button and a change of track.\<close>

fun no_intent :: "event \<Rightarrow> bool" where
  "no_intent (SetTrack t) = False"
| "no_intent ClickToggle = False"
| "no_intent e = True"

text \<open>\<open>extends s s'\<close>: \<open>s'\<close> has the continuations and the promises of \<open>s\<close>, and maybe more.\<close>

definition extends :: "player \<Rightarrow> player \<Rightarrow> bool" where
  "extends s s' \<longleftrightarrow>
     set (waiting s) \<subseteq> set (waiting s') \<and> prefix (promises s) (promises s')"

subsection \<open>Concrete tracks and runs\<close>

definition trackA :: track where
  "trackA = \<lparr>track_id = ''a'', track_name = ''A'', artist = ''x'', coverArt = ''a.png'',
     url = ''a.mp3''\<rparr>"

definition trackB :: track where
  "trackB = \<lparr>track_id = ''b'', track_name = ''B'', artist = ''y'', coverArt = ''b.png'',
     url = ''b.mp3''\<rparr>"

definition trackC :: track where
  "trackC = \<lparr>track_id = ''c'', track_name = ''C'', artist = ''z'', coverArt = ''c.png'',
     url = ''c.mp3''\<rparr>"

text \<open>Two clicks on the transport button, the first start still pending.\<close>

definition double_click_state :: player where
  "double_click_state = run [ClickToggle, ClickToggle] (mount (Inr Running) (Some trackA))"

text \<open>One click on play, the start still pending.\<close>

definition one_click_state :: player where
  "one_click_state = run [ClickToggle] (mount (Inr Running) (Some trackA))"

text \<open>Track A at mount, then B, then C while the start for B is pending.\<close>

definition superseded_state :: player where
  "superseded_state =
     run [SetTrack (Some trackB), SetTrack (Some trackC)] (mount (Inr Running) (Some trackA))"

text \<open>
  A click on play for track A, a change to track B before that start has settled, and the
  start for A rejected with \<open>AbortError\<close>.
\<close>

definition abort_state :: player where
  "abort_state =
     run [ClickToggle, SetTrack (Some trackB), Settle 0 (Rejected (Exn ''AbortError''))]
       (mount (Inr Running) (Some trackA))"

text \<open>The same run, continued by the start for B being fulfilled.\<close>

definition error_while_playing_state :: player where
  "error_while_playing_state =
     run [ClickToggle, SetTrack (Some trackB), Settle 0 (Rejected (Exn ''AbortError'')),
          Settle 1 Fulfilled]
       (mount (Inr Running) (Some trackA))"

text \<open>Track A is playing and the track changes to B: the start for B is pending.\<close>

definition pause_intent_state :: player where
  "pause_intent_state =
     run [ClickToggle, Settle 0 Fulfilled, SetTrack (Some trackB)]
       (mount (Inr Running) (Some trackA))"

text \<open>
  A browser whose \<open>AudioContext\<close> constructor throws: a change of track, then a click on
  play.
\<close>

definition graph_failure_state :: player where
  "graph_failure_state =
     run [SetTrack (Some trackB), ClickToggle]
       (mount (Inl (Exn ''NotSupportedError'')) (Some trackA))"

section \<open>Shared lemmas\<close>

lemmas handler_defs =
  initAudioContext_def pauseNow_def await_def play_def attemptPlay_def trackEffect_def
  togglePlay_def handleTimeUpdate_def handleLoadedMetadata_def handleAudioError_def
  handleSeek_def handleVolume_def on_element_def

lemmas simple_handler_defs =
  handleTimeUpdate_def handleLoadedMetadata_def handleAudioError_def handleSeek_def
  handleVolume_def on_element_def

lemmas platform_defs =
  fresh_element_def render_def setTrack_def initial_def mount_def settle_def run_def

lemmas track_defs = trackA_def trackB_def trackC_def

lemmas eval_defs = platform_defs handler_defs track_defs pending_def

subsection \<open>Continuations keep waiting until their promise settles\<close>

lemma extends_refl [simp]: "extends s s"
  by (simp add: extends_def)

lemma extends_trans: "extends s s1 \<Longrightarrow> extends s1 s2 \<Longrightarrow> extends s s2"
  unfolding extends_def by (meson order_trans prefix_order.order_trans)

lemma resume_frame [simp]:
  "waiting (resume k out s) = waiting s"
  "promises (resume k out s) = promises s"
  "unhandled (resume k out s) = unhandled s"
  "audioRef (resume k out s) = audioRef s"
  "track (resume k out s) = track s"
  "newAudioContext (resume k out s) = newAudioContext s"
  "audioCtxRef (resume k out s) = audioCtxRef s"
  "isInitialMount (resume k out s) = isInitialMount s"
  by (cases k; cases out; simp add: pauseNow_def Let_def split: option.splits)+

lemma fold_resume_frame [simp]:
  "waiting (fold (\<lambda>k. resume k out) ks s) = waiting s"
  "promises (fold (\<lambda>k. resume k out) ks s) = promises s"
  "unhandled (fold (\<lambda>k. resume k out) ks s) = unhandled s"
  "audioRef (fold (\<lambda>k. resume k out) ks s) = audioRef s"
  "track (fold (\<lambda>k. resume k out) ks s) = track s"
  "newAudioContext (fold (\<lambda>k. resume k out) ks s) = newAudioContext s"
  "audioCtxRef (fold (\<lambda>k. resume k out) ks s) = audioCtxRef s"
  "isInitialMount (fold (\<lambda>k. resume k out) ks s) = isInitialMount s"
  by (induction ks arbitrary: s; simp)+

lemma extends_await: "extends s (await p k s)"
  by (auto simp: extends_def await_def split: pstate.splits)

lemma extends_initAudioContext: "initAudioContext s = Inr s' \<Longrightarrow> extends s s'"
  by (auto simp: extends_def initAudioContext_def split: sum.splits if_splits)

lemma extends_play: "play el s = (p, s') \<Longrightarrow> extends s s'"
  by (auto simp: extends_def play_def Let_def)

lemma extends_attemptPlay: "extends s (attemptPlay s)"
proof (cases "audioRef s")
  case None
  then show ?thesis by (simp add: attemptPlay_def)
next
  case (Some el)
  show ?thesis
  proof (cases "initAudioContext s")
    case (Inl e)
    with Some show ?thesis by (simp add: attemptPlay_def extends_def Let_def)
  next
    case (Inr s1)
    obtain p s2 where pl: "play el s1 = (p, s2)" by (cases "play el s1")
    have "extends s s1" using Inr by (rule extends_initAudioContext)
    moreover have "extends s1 s2" using pl by (rule extends_play)
    moreover have "extends s2 (await p (AttemptPlayAwait p) s2)" by (rule extends_await)
    ultimately have "extends s (await p (AttemptPlayAwait p) s2)"
      by (blast intro: extends_trans)
    with Some Inr pl show ?thesis by (simp add: attemptPlay_def)
  qed
qed

lemma extends_trackEffect: "extends s (trackEffect s)"
proof -
  have "extends s (s\<lparr>error := None, ops := ops s @ [Load]\<rparr>)" by (simp add: extends_def)
  moreover have "extends (s\<lparr>error := None, ops := ops s @ [Load]\<rparr>)
                   (attemptPlay (s\<lparr>error := None, ops := ops s @ [Load]\<rparr>))"
    by (rule extends_attemptPlay)
  ultimately have "extends s (attemptPlay (s\<lparr>error := None, ops := ops s @ [Load]\<rparr>))"
    by (rule extends_trans)
  then show ?thesis by (simp add: trackEffect_def Let_def extends_def)
qed

lemma extends_setTrack: "extends s (setTrack t s)"
proof -
  have "extends s (render t s)" by (simp add: extends_def render_def)
  then show ?thesis
    by (auto simp: setTrack_def intro: extends_trans extends_trackEffect)
qed

lemma extends_togglePlay: "extends s (togglePlay s)"
proof (cases "audioRef s")
  case None
  then show ?thesis by (simp add: togglePlay_def)
next
  case (Some el)
  show ?thesis
  proof (cases "track s")
    case None
    with Some show ?thesis by (simp add: togglePlay_def)
  next
    case tr: (Some t)
    show ?thesis
    proof (cases "isPlaying s")
      case True
      show ?thesis
      proof (cases "playPromiseRef s")
        case None
        with Some tr True show ?thesis by (simp add: togglePlay_def pauseNow_def extends_def)
      next
        case (Some p)
        with \<open>audioRef s = Some el\<close> tr True show ?thesis
          by (simp add: togglePlay_def extends_await)
      qed
    next
      case False
      show ?thesis
      proof (cases "initAudioContext s")
        case (Inl e)
        with Some tr False show ?thesis by (simp add: togglePlay_def extends_def)
      next
        case (Inr s1)
        define s2 where "s2 = (if readyState el = 0 then s1\<lparr>ops := ops s1 @ [Load]\<rparr> else s1)"
        obtain p s3 where pl: "play el s2 = (p, s3)" by (cases "play el s2")
        have "extends s s1" using Inr by (rule extends_initAudioContext)
        moreover have "extends s1 s2" by (simp add: s2_def extends_def)
        moreover have "extends s2 s3" using pl by (rule extends_play)
        moreover have "extends s3 (await p (TogglePlayAwait p) s3)" by (rule extends_await)
        ultimately have "extends s (await p (TogglePlayAwait p) s3)"
          by (blast intro: extends_trans)
        with Some tr False Inr pl show ?thesis by (simp add: togglePlay_def s2_def)
      qed
    qed
  qed
qed


lemma pending_extends: "extends s s' \<Longrightarrow> pending s p \<Longrightarrow> pending s' p"
  by (auto simp: extends_def pending_def prefix_def nth_append)

lemma pending_on_element [simp]: "pending (on_element f s) p = pending s p"
  by (simp add: pending_def on_element_def)

lemma waiting_on_element [simp]: "waiting (on_element f s) = waiting s"
  by (simp add: on_element_def)

lemma still_waiting_step:
  assumes "k \<in> set (waiting s)" and "pending s (promise_of k)"
    and "\<And>out. e \<noteq> Settle (promise_of k) out"
  shows "k \<in> set (waiting (step e s)) \<and> pending (step e s) (promise_of k)"
proof (cases e)
  case (Settle q out)
  with assms(3) have neq: "q \<noteq> promise_of k" by auto
  with assms(1,2) Settle show ?thesis
    by (auto simp: settle_def pending_def)
next
  case (SetTrack t)
  have ext: "extends s (step e s)" using SetTrack by (simp add: extends_setTrack)
  from pending_extends [OF ext assms(2)] ext assms(1) show ?thesis
    by (auto simp: extends_def)
next
  case ClickToggle
  have ext: "extends s (step e s)" using ClickToggle by (simp add: extends_togglePlay)
  from pending_extends [OF ext assms(2)] ext assms(1) show ?thesis
    by (auto simp: extends_def)
next
  case (ContextState st)
  with assms(1,2) show ?thesis by (simp add: pending_def)
qed (use assms(1,2) in \<open>auto simp: handler_defs pending_def Let_def split: option.splits\<close>)

lemma still_waiting_run:
  assumes "k \<in> set (waiting s)" and "pending s (promise_of k)"
    and "\<forall>out. Settle (promise_of k) out \<notin> set evs"
  shows "k \<in> set (waiting (run evs s)) \<and> pending (run evs s) (promise_of k)"
  using assms
proof (induction evs arbitrary: s)
  case Nil
  then show ?case by (simp add: run_def)
next
  case (Cons e evs)
  from Cons.prems have "k \<in> set (waiting (step e s)) \<and> pending (step e s) (promise_of k)"
    by (intro still_waiting_step) auto
  with Cons.IH [of "step e s"] Cons.prems(3) show ?case by (simp add: run_def)
qed

subsection \<open>What a start looks like\<close>

lemma initAudioContext_fields:
  assumes "initAudioContext s = Inr s1"
  shows "promises s1 = promises s" and "waiting s1 = waiting s"
    and "playPromiseRef s1 = playPromiseRef s" and "isPlaying s1 = isPlaying s"
    and "error s1 = error s" and "track s1 = track s" and "audioRef s1 = audioRef s"
    and "isInitialMount s1 = isInitialMount s" and "unhandled s1 = unhandled s"
    and "console s1 = console s" and "newAudioContext s1 = newAudioContext s"
    and "currentTime s1 = currentTime s" and "duration s1 = duration s"
  using assms by (auto simp: initAudioContext_def split: sum.splits if_splits)

lemma initAudioContext_ops:
  "initAudioContext s = Inr s1 \<Longrightarrow> prefix (ops s) (ops s1) \<and> Pause \<notin> set (drop (length (ops s)) (ops s1))
      \<and> (\<forall>p. Play p \<notin> set (drop (length (ops s)) (ops s1)))"
  by (auto simp: initAudioContext_def split: sum.splits if_splits)

lemma initAudioContext_available:
  "audioRef s \<noteq> None \<Longrightarrow> graph_available s \<Longrightarrow> \<exists>s1. initAudioContext s = Inr s1"
  by (cases "newAudioContext s") (auto simp: initAudioContext_def graph_available_def)

lemma initAudioContext_unavailable:
  "audioRef s \<noteq> None \<Longrightarrow> \<not> graph_available s \<Longrightarrow> \<exists>e. initAudioContext s = Inl e \<and> newAudioContext s = Inl e"
  by (cases "newAudioContext s") (auto simp: initAudioContext_def graph_available_def)

lemma attemptPlay_started:
  assumes "audioRef s = Some el" and "initAudioContext s = Inr s1"
  shows "attemptPlay s =
           s1\<lparr>ops := ops s1 @ [Play (length (promises s))],
              promises := promises s @ [\<lparr>issued_for = src el, status = Pending\<rparr>],
              playPromiseRef := Some (length (promises s)),
              waiting := waiting s @ [AttemptPlayAwait (length (promises s))]\<rparr>"
  using assms initAudioContext_fields(1,2) [OF assms(2)]
  by (simp add: attemptPlay_def play_def await_def Let_def)

lemma togglePlay_started:
  assumes "audioRef s = Some el" and "track s = Some t" and "\<not> isPlaying s"
    and "initAudioContext s = Inr s1"
  shows "togglePlay s =
           s1\<lparr>ops := ops s1 @ (if readyState el = 0 then [Load] else [])
                   @ [Play (length (promises s))],
              promises := promises s @ [\<lparr>issued_for = src el, status = Pending\<rparr>],
              playPromiseRef := Some (length (promises s)),
              waiting := waiting s @ [TogglePlayAwait (length (promises s))]\<rparr>"
  using assms initAudioContext_fields(1,2) [OF assms(4)]
  by (simp add: togglePlay_def play_def await_def Let_def)

lemma filter_fresh:
  "well_formed s \<Longrightarrow> filter (\<lambda>k. promise_of k = length (promises s)) (waiting s) = []"
  by (auto simp: well_formed_def list_all_iff filter_empty_conv)

lemma settle_single:
  assumes "pending s p" and "filter (\<lambda>k. promise_of k = p) (waiting s) = [k]"
  shows "settle p out s =
           resume k out
             (s\<lparr>promises := (promises s)[p := (promises s ! p)\<lparr>status := Settled out\<rparr>],
                waiting := filter (\<lambda>k. promise_of k \<noteq> p) (waiting s)\<rparr>)"
  using assms by (simp add: settle_def pending_def)

lemma setTrack_changed:
  "track s \<noteq> Some t \<Longrightarrow> \<not> isInitialMount s \<Longrightarrow>
     setTrack (Some t) s = attemptPlay ((render (Some t) s)\<lparr>error := None, ops := ops s @ [Load]\<rparr>)"
  by (auto simp: setTrack_def trackEffect_def render_def Let_def split: option.splits)

lemma setTrack_first:
  "track s \<noteq> Some t \<Longrightarrow> isInitialMount s \<Longrightarrow>
     setTrack (Some t) s =
       (render (Some t) s)\<lparr>error := None, ops := ops s @ [Load], isInitialMount := False\<rparr>"
  by (auto simp: setTrack_def trackEffect_def render_def Let_def split: option.splits)

text \<open>What an automatic start looks like.\<close>

lemma setTrack_autoplay:
  assumes "track s \<noteq> Some t" and "\<not> isInitialMount s" and "graph_available s"
  shows "promises (setTrack (Some t) s) = promises s @ [\<lparr>issued_for = url t, status = Pending\<rparr>]"
    and "waiting (setTrack (Some t) s) = waiting s @ [AttemptPlayAwait (length (promises s))]"
    and "playPromiseRef (setTrack (Some t) s) = Some (length (promises s))"
    and "last (ops (setTrack (Some t) s)) = Play (length (promises s))"
    and "prefix (ops s @ [Load]) (ops (setTrack (Some t) s))"
    and "isPlaying (setTrack (Some t) s) = isPlaying s"
    and "error (setTrack (Some t) s) = None"
    and "track (setTrack (Some t) s) = Some t"
    and "console (setTrack (Some t) s) = console s"
    and "unhandled (setTrack (Some t) s) = unhandled s"
proof -
  define r where "r = (render (Some t) s)\<lparr>error := None, ops := ops s @ [Load]\<rparr>"
  obtain el where el: "audioRef r = Some el" and src: "src el = url t"
    by (cases "audioRef s") (auto simp: r_def render_def fresh_element_def)
  have "graph_available r" using assms(3) by (simp add: r_def render_def graph_available_def)
  with el obtain s1 where s1: "initAudioContext r = Inr s1"
    using initAudioContext_available [of r] by auto
  note f = initAudioContext_fields [OF s1]
  have eq: "setTrack (Some t) s =
      s1\<lparr>ops := ops s1 @ [Play (length (promises r))],
         promises := promises r @ [\<lparr>issued_for = src el, status = Pending\<rparr>],
         playPromiseRef := Some (length (promises r)),
         waiting := waiting r @ [AttemptPlayAwait (length (promises r))]\<rparr>"
    using setTrack_changed [OF assms(1,2)] attemptPlay_started [OF el s1] by (simp add: r_def)
  have r: "promises r = promises s" "waiting r = waiting s" "isPlaying r = isPlaying s"
    "error r = None" "track r = Some t" "console r = console s" "unhandled r = unhandled s"
    "ops r = ops s @ [Load]"
    by (simp_all add: r_def render_def)
  show "promises (setTrack (Some t) s) = promises s @ [\<lparr>issued_for = url t, status = Pending\<rparr>]"
    by (simp add: eq r src)
  show "waiting (setTrack (Some t) s) = waiting s @ [AttemptPlayAwait (length (promises s))]"
    by (simp add: eq r)
  show "playPromiseRef (setTrack (Some t) s) = Some (length (promises s))"
    by (simp add: eq r)
  show "last (ops (setTrack (Some t) s)) = Play (length (promises s))"
    by (simp add: eq r)
  show "prefix (ops s @ [Load]) (ops (setTrack (Some t) s))"
    using initAudioContext_ops [OF s1] by (simp add: eq r prefix_def) auto
  show "isPlaying (setTrack (Some t) s) = isPlaying s" by (simp add: eq r f)
  show "error (setTrack (Some t) s) = None" by (simp add: eq r f)
  show "track (setTrack (Some t) s) = Some t" by (simp add: eq r f)
  show "console (setTrack (Some t) s) = console s" by (simp add: eq r f)
  show "unhandled (setTrack (Some t) s) = unhandled s" by (simp add: eq r f)
qed

lemma settle_fresh:
  assumes "well_formed s" and "promises s' = promises s @ [pr]" and "status pr = Pending"
    and "waiting s' = waiting s @ [k]" and "promise_of k = length (promises s)"
  shows "settle (length (promises s)) out s' =
           resume k out
             (s'\<lparr>promises := promises s @ [pr\<lparr>status := Settled out\<rparr>], waiting := waiting s\<rparr>)"
proof -
  have none: "\<forall>x\<in>set (waiting s). promise_of x \<noteq> length (promises s)"
    using assms(1) by (auto simp: well_formed_def list_all_iff)
  then have keep: "filter (\<lambda>k. promise_of k \<noteq> length (promises s)) (waiting s) = waiting s"
    by (simp add: filter_id_conv)
  have "pending s' (length (promises s))"
    using assms(2,3) by (simp add: pending_def)
  moreover have "filter (\<lambda>k. promise_of k = length (promises s)) (waiting s') = [k]"
    using assms(4,5) filter_fresh [OF assms(1)] by simp
  ultimately show ?thesis
    using settle_single [of s' "length (promises s)" k out] assms(2,4,5) keep by simp
qed

lemma setTrack_autoplay_settled:
  assumes "well_formed s" and "track s \<noteq> Some t" and "\<not> isInitialMount s" and "graph_available s"
  shows "isPlaying (settle (length (promises s)) Fulfilled (setTrack (Some t) s))"
    and "error (settle (length (promises s)) Fulfilled (setTrack (Some t) s)) = None"
    and "\<not> isPlaying (settle (length (promises s)) (Rejected e) (setTrack (Some t) s))"
    and "error (settle (length (promises s)) (Rejected e) (setTrack (Some t) s)) = None"
    and "console (settle (length (promises s)) (Rejected e) (setTrack (Some t) s)) =
           console s @ (if exn_name e \<noteq> ''AbortError''
                        then [''Playback failed or was prevented:''] else [])"
    and "playPromiseRef (settle (length (promises s)) out (setTrack (Some t) s)) = None"
proof -
  note a = setTrack_autoplay [OF assms(2,3,4)]
  have st: "\<And>out. settle (length (promises s)) out (setTrack (Some t) s) =
      resume (AttemptPlayAwait (length (promises s))) out
        ((setTrack (Some t) s)\<lparr>promises := promises s @
            [\<lparr>issued_for = url t, status = Pending\<rparr>\<lparr>status := Settled out\<rparr>],
          waiting := waiting s\<rparr>)"
    by (rule settle_fresh [OF assms(1) a(1) _ a(2)]) simp_all
  show "isPlaying (settle (length (promises s)) Fulfilled (setTrack (Some t) s))"
    by (simp add: st)
  show "error (settle (length (promises s)) Fulfilled (setTrack (Some t) s)) = None"
    by (simp add: st a)
  show "\<not> isPlaying (settle (length (promises s)) (Rejected e) (setTrack (Some t) s))"
    by (simp add: st Let_def)
  show "error (settle (length (promises s)) (Rejected e) (setTrack (Some t) s)) = None"
    by (simp add: st a Let_def)
  show "console (settle (length (promises s)) (Rejected e) (setTrack (Some t) s)) =
           console s @ (if exn_name e \<noteq> ''AbortError''
                        then [''Playback failed or was prevented:''] else [])"
    by (simp add: st a Let_def)
  show "playPromiseRef (settle (length (promises s)) out (setTrack (Some t) s)) = None"
    by (cases out) (simp_all add: st Let_def)
qed

lemma togglePlay_start:
  assumes "audioRef s = Some el" and "track s = Some t" and "\<not> isPlaying s"
    and "graph_available s"
  shows "promises (togglePlay s) = promises s @ [\<lparr>issued_for = src el, status = Pending\<rparr>]"
    and "waiting (togglePlay s) = waiting s @ [TogglePlayAwait (length (promises s))]"
    and "playPromiseRef (togglePlay s) = Some (length (promises s))"
    and "last (ops (togglePlay s)) = Play (length (promises s))"
    and "isPlaying (togglePlay s) = isPlaying s"
    and "error (togglePlay s) = error s"
    and "unhandled (togglePlay s) = unhandled s"
    and "console (togglePlay s) = console s"
proof -
  from assms(1,4) obtain s1 where s1: "initAudioContext s = Inr s1"
    using initAudioContext_available [of s] by auto
  note f = initAudioContext_fields [OF s1]
  note eq = togglePlay_started [OF assms(1,2,3) s1]
  show "promises (togglePlay s) = promises s @ [\<lparr>issued_for = src el, status = Pending\<rparr>]"
    by (simp add: eq)
  show "waiting (togglePlay s) = waiting s @ [TogglePlayAwait (length (promises s))]"
    by (simp add: eq)
  show "playPromiseRef (togglePlay s) = Some (length (promises s))" by (simp add: eq)
  show "last (ops (togglePlay s)) = Play (length (promises s))" by (simp add: eq)
  show "isPlaying (togglePlay s) = isPlaying s" by (simp add: eq f)
  show "error (togglePlay s) = error s" by (simp add: eq f)
  show "unhandled (togglePlay s) = unhandled s" by (simp add: eq f)
  show "console (togglePlay s) = console s" by (simp add: eq f)
qed

lemma togglePlay_start_settled:
  assumes "well_formed s" and "audioRef s = Some el" and "track s = Some t" and "\<not> isPlaying s"
    and "graph_available s"
  shows "isPlaying (settle (length (promises s)) Fulfilled (togglePlay s))"
    and "error (settle (length (promises s)) Fulfilled (togglePlay s)) = None"
    and "\<not> isPlaying (settle (length (promises s)) (Rejected e) (togglePlay s))"
    and "error (settle (length (promises s)) (Rejected e) (togglePlay s))
           = Some ''Unable to play this source.''"
    and "playPromiseRef (settle (length (promises s)) out (togglePlay s)) = None"
proof -
  note a = togglePlay_start [OF assms(2,3,4,5)]
  have st: "\<And>out. settle (length (promises s)) out (togglePlay s) =
      resume (TogglePlayAwait (length (promises s))) out
        ((togglePlay s)\<lparr>promises := promises s @
            [\<lparr>issued_for = src el, status = Pending\<rparr>\<lparr>status := Settled out\<rparr>],
          waiting := waiting s\<rparr>)"
    by (rule settle_fresh [OF assms(1) a(1) _ a(2)]) simp_all
  show "isPlaying (settle (length (promises s)) Fulfilled (togglePlay s))"
    by (simp add: st)
  show "error (settle (length (promises s)) Fulfilled (togglePlay s)) = None"
    by (simp add: st)
  show "\<not> isPlaying (settle (length (promises s)) (Rejected e) (togglePlay s))"
    using assms(4) by (simp add: st a)
  show "error (settle (length (promises s)) (Rejected e) (togglePlay s))
           = Some ''Unable to play this source.''"
    by (simp add: st)
  show "playPromiseRef (settle (length (promises s)) out (togglePlay s)) = None"
    by (cases out) (simp_all add: st)
qed

subsection \<open>well_formed is an invariant\<close>

lemma well_formed_iff:
  "well_formed s \<longleftrightarrow>
     (\<forall>k\<in>set (waiting s). promise_of k < length (promises s))
     \<and> (\<forall>p. playPromiseRef s = Some p \<longrightarrow> p < length (promises s))"
  by (auto simp: well_formed_def list_all_iff split: option.splits)

lemma well_formed_cong:
  "waiting s' = waiting s \<Longrightarrow> promises s' = promises s \<Longrightarrow>
   playPromiseRef s' = playPromiseRef s \<or> playPromiseRef s' = None \<Longrightarrow> well_formed s \<Longrightarrow> well_formed s'"
  by (auto simp: well_formed_iff)

lemma playPromiseRef_resume:
  "playPromiseRef (resume k out s) = playPromiseRef s \<or> playPromiseRef (resume k out s) = None"
  by (cases k; cases out) (simp_all add: pauseNow_def Let_def split: option.splits)

lemma well_formed_resume: "well_formed s \<Longrightarrow> well_formed (resume k out s)"
  by (rule well_formed_cong [OF _ _ playPromiseRef_resume]) simp_all

lemma well_formed_fold_resume: "well_formed s \<Longrightarrow> well_formed (fold (\<lambda>k. resume k out) ks s)"
  by (induction ks arbitrary: s) (simp_all add: well_formed_resume)

lemma well_formed_await: "well_formed s \<Longrightarrow> p < length (promises s) \<Longrightarrow> promise_of k = p \<Longrightarrow> well_formed (await p k s)"
  by (auto simp: await_def well_formed_resume split: pstate.splits) (auto simp: well_formed_iff)

lemma well_formed_initAudioContext: "initAudioContext s = Inr s1 \<Longrightarrow> well_formed s \<Longrightarrow> well_formed s1"
  by (rule well_formed_cong) (simp_all add: initAudioContext_fields)

lemma well_formed_play: "well_formed s \<Longrightarrow> play el s = (p, s') \<Longrightarrow> well_formed s' \<and> p < length (promises s')"
  by (auto simp: play_def Let_def well_formed_iff less_Suc_eq)

lemma well_formed_attemptPlay: "well_formed s \<Longrightarrow> well_formed (attemptPlay s)"
proof (cases "audioRef s")
  case None
  then show "well_formed s \<Longrightarrow> well_formed (attemptPlay s)" by (simp add: attemptPlay_def)
next
  case (Some el)
  assume w: "well_formed s"
  show "well_formed (attemptPlay s)"
  proof (cases "initAudioContext s")
    case (Inl e)
    with Some w show ?thesis by (simp add: attemptPlay_def Let_def well_formed_iff)
  next
    case (Inr s1)
    obtain p s2 where pl: "play el s1 = (p, s2)" by (cases "play el s1")
    from well_formed_play [OF well_formed_initAudioContext [OF Inr w] pl]
    have "well_formed (await p (AttemptPlayAwait p) s2)" by (simp add: well_formed_await)
    with Some Inr pl show ?thesis by (simp add: attemptPlay_def)
  qed
qed

lemma well_formed_trackEffect: "well_formed s \<Longrightarrow> well_formed (trackEffect s)"
proof -
  assume w: "well_formed s"
  then have "well_formed (s\<lparr>error := None, ops := ops s @ [Load]\<rparr>)" by (simp add: well_formed_iff)
  from well_formed_attemptPlay [OF this] w show ?thesis
    by (simp add: trackEffect_def Let_def) (simp add: well_formed_iff)
qed

lemma well_formed_setTrack: "well_formed s \<Longrightarrow> well_formed (setTrack t s)"
proof -
  assume w: "well_formed s"
  then have "well_formed (render t s)" by (simp add: well_formed_iff render_def)
  then show ?thesis using w by (simp add: setTrack_def well_formed_trackEffect)
qed

lemma well_formed_togglePlay: "well_formed s \<Longrightarrow> well_formed (togglePlay s)"
proof -
  assume w: "well_formed s"
  show ?thesis
  proof (cases "audioRef s")
    case None
    with w show ?thesis by (simp add: togglePlay_def)
  next
    case (Some el)
    show ?thesis
    proof (cases "track s")
      case None
      with Some w show ?thesis by (simp add: togglePlay_def)
    next
      case tr: (Some t)
      show ?thesis
      proof (cases "isPlaying s")
        case True
        show ?thesis
        proof (cases "playPromiseRef s")
          case None
          with Some tr True w show ?thesis by (simp add: togglePlay_def pauseNow_def well_formed_iff)
        next
          case (Some p)
          with w have "p < length (promises s)" by (simp add: well_formed_iff)
          with w have "well_formed (await p (TogglePauseAwait p) s)" by (simp add: well_formed_await)
          with \<open>audioRef s = Some el\<close> tr True Some show ?thesis by (simp add: togglePlay_def)
        qed
      next
        case False
        show ?thesis
        proof (cases "initAudioContext s")
          case (Inl e)
          with Some tr False w show ?thesis by (simp add: togglePlay_def well_formed_iff)
        next
          case (Inr s1)
          define s2 where "s2 = (if readyState el = 0 then s1\<lparr>ops := ops s1 @ [Load]\<rparr> else s1)"
          obtain p s3 where pl: "play el s2 = (p, s3)" by (cases "play el s2")
          have "well_formed s2" using well_formed_initAudioContext [OF Inr w] by (simp add: s2_def well_formed_iff)
          from well_formed_play [OF this pl] have "well_formed (await p (TogglePlayAwait p) s3)"
            by (simp add: well_formed_await)
          with Some tr False Inr pl show ?thesis by (simp add: togglePlay_def s2_def)
        qed
      qed
    qed
  qed
qed

lemma well_formed_settle: "well_formed s \<Longrightarrow> well_formed (settle p out s)"
proof -
  assume w: "well_formed s"
  then have "well_formed (s\<lparr>promises := (promises s)[p := (promises s ! p)\<lparr>status := Settled out\<rparr>],
                  waiting := filter (\<lambda>k. promise_of k \<noteq> p) (waiting s)\<rparr>)"
    by (auto simp: well_formed_iff)
  then show ?thesis using w by (simp add: settle_def well_formed_fold_resume)
qed

lemma well_formed_step: "well_formed s \<Longrightarrow> well_formed (step e s)"
  by (cases e)
     (simp_all add: well_formed_setTrack well_formed_togglePlay well_formed_settle,
      simp_all add: well_formed_iff handler_defs Let_def split: option.splits)

lemma well_formed_run: "well_formed s \<Longrightarrow> well_formed (run evs s)"
  unfolding run_def by (induction evs arbitrary: s) (simp_all add: well_formed_step)

lemma well_formed_initial: "well_formed (initial ctor)"
  by (simp add: well_formed_iff initial_def)

lemma well_formed_mount: "well_formed (mount ctor t)"
proof -
  have "well_formed (render t (initial ctor))" using well_formed_initial by (simp add: well_formed_iff render_def)
  then show ?thesis by (simp add: mount_def well_formed_trackEffect)
qed

subsection \<open>Fields the handlers leave alone\<close>

lemma await_fields [simp]:
  "isInitialMount (await p k s) = isInitialMount s"
  "unhandled (await p k s) = unhandled s"
  "track (await p k s) = track s"
  "audioRef (await p k s) = audioRef s"
  "newAudioContext (await p k s) = newAudioContext s"
  by (simp_all add: await_def split: pstate.splits)

lemma attemptPlay_fields [simp]:
  "isInitialMount (attemptPlay s) = isInitialMount s"
  "unhandled (attemptPlay s) = unhandled s"
  "track (attemptPlay s) = track s"
  "audioRef (attemptPlay s) = audioRef s"
  "newAudioContext (attemptPlay s) = newAudioContext s"
  by (auto simp: attemptPlay_def play_def Let_def initAudioContext_fields
      split: option.splits sum.splits)

lemma trackEffect_fields [simp]:
  "unhandled (trackEffect s) = unhandled s"
  "track (trackEffect s) = track s"
  "audioRef (trackEffect s) = audioRef s"
  "newAudioContext (trackEffect s) = newAudioContext s"
  by (simp_all add: trackEffect_def Let_def)

lemma trackEffect_isInitialMount: "isInitialMount (trackEffect s) \<Longrightarrow> isInitialMount s"
  by (simp add: trackEffect_def Let_def split: if_splits)

lemma togglePlay_fields [simp]:
  "isInitialMount (togglePlay s) = isInitialMount s"
  "track (togglePlay s) = track s"
  "audioRef (togglePlay s) = audioRef s"
  "newAudioContext (togglePlay s) = newAudioContext s"
  by (auto simp: togglePlay_def play_def Let_def pauseNow_def initAudioContext_fields
      split: option.splits sum.splits)

lemma settle_fields [simp]:
  "isInitialMount (settle p out s) = isInitialMount s"
  "unhandled (settle p out s) = unhandled s"
  "track (settle p out s) = track s"
  "audioRef (settle p out s) = audioRef s"
  "newAudioContext (settle p out s) = newAudioContext s"
  by (simp_all add: settle_def)

lemma setTrack_fields [simp]:
  "unhandled (setTrack t s) = unhandled s"
  "track (setTrack t s) = t"
  "newAudioContext (setTrack t s) = newAudioContext s"
  by (simp_all add: setTrack_def render_def)

lemma isInitialMount_step: "isInitialMount (step e s) \<Longrightarrow> isInitialMount s"
proof (cases e)
  case (SetTrack t)
  assume "isInitialMount (step e s)"
  with SetTrack show ?thesis
    by (auto simp: setTrack_def render_def dest!: trackEffect_isInitialMount split: if_splits)
qed (auto simp: simple_handler_defs Let_def split: option.splits if_splits)

lemma isInitialMount_run: "isInitialMount (run evs s) \<Longrightarrow> isInitialMount s"
  unfolding run_def by (induction evs arbitrary: s) (auto dest: isInitialMount_step)

lemma mount_track: "mount ctor (Some t) =
  \<lparr>track = Some t, isPlaying = False, currentTime = 0, duration = 0, volume = 0.8,
   error = None, analyser = None, audioRef = Some (fresh_element (url t)), audioCtxRef = None,
   playPromiseRef = None, isInitialMount = False, promises = [], waiting = [],
   ops = [Load], console = [], unhandled = [], newAudioContext = ctor\<rparr>"
  by (simp add: mount_def initial_def render_def trackEffect_def)

lemma newAudioContext_step [simp]: "newAudioContext (step e s) = newAudioContext s"
  by (cases e) (simp_all add: simple_handler_defs Let_def split: option.splits)

lemma newAudioContext_run [simp]: "newAudioContext (run evs s) = newAudioContext s"
  unfolding run_def by (induction evs arbitrary: s) simp_all

text \<open>Without a click and without a track change nothing starts.\<close>

lemma quiet_step:
  "no_intent e \<Longrightarrow> \<not> isPlaying s \<Longrightarrow> promises s = [] \<Longrightarrow>
     \<not> isPlaying (step e s) \<and> promises (step e s) = []"
  by (cases e) (simp_all add: simple_handler_defs settle_def Let_def split: option.splits)

lemma quiet_run:
  "list_all no_intent evs \<Longrightarrow> \<not> isPlaying s \<Longrightarrow> promises s = [] \<Longrightarrow>
     \<not> isPlaying (run evs s) \<and> promises (run evs s) = []"
  unfolding run_def
proof (induction evs arbitrary: s)
  case Nil
  then show ?case by simp
next
  case (Cons e evs)
  from Cons.prems have "\<not> isPlaying (step e s) \<and> promises (step e s) = []"
    by (intro quiet_step) simp_all
  with Cons.IH [of "step e s"] Cons.prems(1) show ?case by simp
qed

text \<open>The automatic attempt when the constructor throws.\<close>

lemma setTrack_graph_failure:
  assumes "track s \<noteq> Some t" and "\<not> isInitialMount s" and "\<not> graph_available s"
  shows "\<exists>e. newAudioContext s = Inl e \<and>
           setTrack (Some t) s =
           (render (Some t) s)\<lparr>error := None, ops := ops s @ [Load],
              console := console s @ (if exn_name e \<noteq> ''AbortError''
                                      then [''Playback failed or was prevented:''] else []),
              isPlaying := False, playPromiseRef := None\<rparr>"
proof -
  define r where "r = (render (Some t) s)\<lparr>error := None, ops := ops s @ [Load]\<rparr>"
  obtain el where el: "audioRef r = Some el"
    by (cases "audioRef s") (auto simp: r_def render_def)
  have "\<not> graph_available r" using assms(3) by (simp add: r_def render_def graph_available_def)
  with el obtain e where e: "initAudioContext r = Inl e" "newAudioContext r = Inl e"
    using initAudioContext_unavailable [of r] by auto
  have "attemptPlay r = (if exn_name e \<noteq> ''AbortError''
          then r\<lparr>console := console r @ [''Playback failed or was prevented:'']\<rparr> else r)
          \<lparr>isPlaying := False, playPromiseRef := None\<rparr>"
    using el e by (simp add: attemptPlay_def Let_def)
  with setTrack_changed [OF assms(1,2)] e(2) show ?thesis
    by (auto simp: r_def render_def)
qed

text \<open>Only a click whose graph construction throws leaves an exception unhandled.\<close>

lemma unhandled_togglePlay:
  "isPlaying s \<or> graph_available s \<Longrightarrow> unhandled (togglePlay s) = unhandled s"
  by (cases "newAudioContext s")
     (auto simp: togglePlay_def play_def Let_def pauseNow_def initAudioContext_def
        graph_available_def split: option.splits)

lemma unhandled_step:
  "e \<noteq> ClickToggle \<Longrightarrow> unhandled (step e s) = unhandled s"
  by (cases e) (simp_all add: simple_handler_defs Let_def split: option.splits)

subsection \<open>Pausing after a start\<close>

lemma togglePlay_pause_waits:
  assumes "isPlaying s" and "track s \<noteq> None" and "audioRef s \<noteq> None"
    and "playPromiseRef s = Some p" and "pending s p"
  shows "togglePlay s = s\<lparr>waiting := waiting s @ [TogglePauseAwait p]\<rparr>"
  using assms by (auto simp: togglePlay_def await_def pending_def split: option.splits)

lemma ops_resume_rejected [simp]: "ops (resume k (Rejected e) s) = ops s"
  by (cases k) (simp_all add: Let_def)

lemma ops_fold_resume_rejected [simp]:
  "ops (fold (\<lambda>k. resume k (Rejected e)) ks s) = ops s"
  by (induction ks arbitrary: s) simp_all

lemma ops_settle_rejected: "ops (settle p (Rejected e) s) = ops s"
  by (simp add: settle_def)

lemma pause_count_resume:
  "count_list (ops s) Pause \<le> count_list (ops (resume k Fulfilled s)) Pause"
  by (cases k) (simp_all add: pauseNow_def split: option.splits)

lemma pause_count_fold_resume:
  "count_list (ops s) Pause \<le> count_list (ops (fold (\<lambda>k. resume k Fulfilled) ks s)) Pause"
proof (induction ks arbitrary: s)
  case Nil
  then show ?case by simp
next
  case (Cons k ks)
  from pause_count_resume [of s k] Cons.IH [of "resume k Fulfilled s"] show ?case by simp
qed

lemma pause_count_fold_resume_less:
  "TogglePauseAwait p \<in> set ks \<Longrightarrow> audioRef s \<noteq> None \<Longrightarrow>
     count_list (ops s) Pause < count_list (ops (fold (\<lambda>k. resume k Fulfilled) ks s)) Pause"
proof (induction ks arbitrary: s)
  case Nil
  then show ?case by simp
next
  case (Cons k ks)
  show ?case
  proof (cases "k = TogglePauseAwait p")
    case True
    with Cons.prems(2) have "count_list (ops s) Pause < count_list (ops (resume k Fulfilled s)) Pause"
      by (auto simp: pauseNow_def)
    with pause_count_fold_resume [of "resume k Fulfilled s" ks] show ?thesis by simp
  next
    case False
    with Cons.prems have "TogglePauseAwait p \<in> set ks" "audioRef (resume k Fulfilled s) \<noteq> None"
      by simp_all
    from Cons.IH [OF this] pause_count_resume [of s k] show ?thesis by simp
  qed
qed

lemma settle_fulfilled_pauses:
  assumes "TogglePauseAwait p \<in> set (waiting s)" and "pending s p" and "audioRef s \<noteq> None"
  shows "count_list (ops s) Pause < count_list (ops (settle p Fulfilled s)) Pause"
proof -
  have "TogglePauseAwait p \<in> set (filter (\<lambda>k. promise_of k = p) (waiting s))"
    using assms(1) by simp
  from pause_count_fold_resume_less [OF this, of
      "s\<lparr>promises := (promises s)[p := (promises s ! p)\<lparr>status := Settled Fulfilled\<rparr>],
         waiting := filter (\<lambda>k. promise_of k \<noteq> p) (waiting s)\<rparr>"] assms(2,3)
  show ?thesis by (simp add: settle_def pending_def)
qed

lemma settle_fulfilled_last_pause:
  assumes "pending s p" and "audioRef s \<noteq> None"
  shows "\<not> isPlaying (settle p Fulfilled (s\<lparr>waiting := waiting s @ [TogglePauseAwait p]\<rparr>))
         \<and> last (ops (settle p Fulfilled (s\<lparr>waiting := waiting s @ [TogglePauseAwait p]\<rparr>))) = Pause"
  using assms by (auto simp: settle_def pending_def pauseNow_def split: option.splits)


subsection \<open>Rejections\<close>

lemma resume_rejected_isPlaying:
  "isPlaying (resume k (Rejected e) s) \<Longrightarrow> isPlaying s"
  by (cases k) (simp_all add: Let_def)

lemma fold_resume_rejected_isPlaying:
  "isPlaying (fold (\<lambda>k. resume k (Rejected e)) ks s) \<Longrightarrow> isPlaying s"
  by (induction ks arbitrary: s) (auto dest: resume_rejected_isPlaying)

section \<open>C1: starts are not serialised, pauses wait\<close>

text \<open>
  C1, as stated, fails: two clicks on the transport button while the first start is still
  pending. The second click still sees \<open>isPlaying = false\<close> (line 103 has not run), takes
  the play branch again and calls \<open>play()\<close> a second time, so two starts are outstanding
  on the one element.
\<close>

theorem double_click_two_starts_outstanding:
  "outstanding double_click_state = [0, 1] \<and> \<not> length (outstanding double_click_state) \<le> 1"
  by (simp add: double_click_state_def outstanding_def pending_def platform_defs handler_defs
      track_defs)

text \<open>
  C1, amended: starts are not serialised. With a start \<open>q\<close> pending, a click on play
  while \<open>isPlaying\<close> is false, and a change of track after the first one, each call
  \<open>play()\<close> at once (the change of track after reloading the element): \<open>q\<close> and the new
  start are then both outstanding. What the code guarantees is the pause side. A call of
  \<open>togglePlay\<close> made while \<open>isPlaying\<close> is true and a pending start is recorded in
  \<open>playPromiseRef\<close> makes no call on the element and changes no state: it only waits for
  that start. Through every sequence of events that does not settle the start it is still
  waiting (and the start is still pending). When the start is rejected, its settlement
  makes no call on the element; when it is fulfilled and the element is still mounted,
  \<open>pause()\<close> is called; settled right after the click, \<open>pause()\<close> is the last call and
  \<open>isPlaying\<close> ends false.
\<close>

theorem starts_overlap_pauses_wait:
  "(\<not> isPlaying s \<and> track s \<noteq> None \<and> audioRef s \<noteq> None \<and> graph_available s \<and> pending s q \<longrightarrow>
      pending (togglePlay s) q
      \<and> pending (togglePlay s) (length (promises s))
      \<and> q \<noteq> length (promises s)
      \<and> last (ops (togglePlay s)) = Play (length (promises s)))
   \<and> (\<not> isInitialMount s \<and> track s \<noteq> Some t \<and> graph_available s \<and> pending s q \<longrightarrow>
      pending (setTrack (Some t) s) q
      \<and> pending (setTrack (Some t) s) (length (promises s))
      \<and> q \<noteq> length (promises s)
      \<and> prefix (ops s @ [Load]) (ops (setTrack (Some t) s))
      \<and> last (ops (setTrack (Some t) s)) = Play (length (promises s)))
   \<and> (isPlaying s \<and> track s \<noteq> None \<and> audioRef s \<noteq> None \<and> playPromiseRef s = Some p
       \<and> pending s p \<longrightarrow>
      togglePlay s = s\<lparr>waiting := waiting s @ [TogglePauseAwait p]\<rparr>
      \<and> ((\<forall>out. Settle p out \<notin> set evs) \<longrightarrow>
            TogglePauseAwait p \<in> set (waiting (run evs (togglePlay s)))
            \<and> pending (run evs (togglePlay s)) p
            \<and> ops (settle p (Rejected e) (run evs (togglePlay s))) = ops (run evs (togglePlay s))
            \<and> (audioRef (run evs (togglePlay s)) \<noteq> None \<longrightarrow>
                 count_list (ops (run evs (togglePlay s))) Pause
                   < count_list (ops (settle p Fulfilled (run evs (togglePlay s)))) Pause))
      \<and> \<not> isPlaying (settle p Fulfilled (togglePlay s))
      \<and> last (ops (settle p Fulfilled (togglePlay s))) = Pause)"
proof -
  have click: "pending (togglePlay s) q
      \<and> pending (togglePlay s) (length (promises s))
      \<and> q \<noteq> length (promises s)
      \<and> last (ops (togglePlay s)) = Play (length (promises s))"
    if h: "\<not> isPlaying s" "track s \<noteq> None" "audioRef s \<noteq> None" "graph_available s" "pending s q"
  proof -
    from h(2,3) obtain el tr where el: "audioRef s = Some el" and tr: "track s = Some tr"
      by auto
    note a = togglePlay_start [OF el tr h(1,4)]
    have "pending (togglePlay s) q"
      using pending_extends [OF extends_togglePlay h(5)] .
    moreover have "pending (togglePlay s) (length (promises s))" by (simp add: pending_def a)
    moreover have "q \<noteq> length (promises s)" using h(5) by (auto simp: pending_def)
    ultimately show ?thesis using a(4) by simp
  qed
  have change: "pending (setTrack (Some t) s) q
      \<and> pending (setTrack (Some t) s) (length (promises s))
      \<and> q \<noteq> length (promises s)
      \<and> prefix (ops s @ [Load]) (ops (setTrack (Some t) s))
      \<and> last (ops (setTrack (Some t) s)) = Play (length (promises s))"
    if h: "\<not> isInitialMount s" "track s \<noteq> Some t" "graph_available s" "pending s q"
  proof -
    note a = setTrack_autoplay [OF h(2,1,3)]
    have "pending (setTrack (Some t) s) q"
      using pending_extends [OF extends_setTrack h(4)] .
    moreover have "pending (setTrack (Some t) s) (length (promises s))"
      by (simp add: pending_def a)
    moreover have "q \<noteq> length (promises s)" using h(4) by (auto simp: pending_def)
    ultimately show ?thesis using a(4,5) by simp
  qed
  have pause: "togglePlay s = s\<lparr>waiting := waiting s @ [TogglePauseAwait p]\<rparr>
      \<and> ((\<forall>out. Settle p out \<notin> set evs) \<longrightarrow>
            TogglePauseAwait p \<in> set (waiting (run evs (togglePlay s)))
            \<and> pending (run evs (togglePlay s)) p
            \<and> ops (settle p (Rejected e) (run evs (togglePlay s))) = ops (run evs (togglePlay s))
            \<and> (audioRef (run evs (togglePlay s)) \<noteq> None \<longrightarrow>
                 count_list (ops (run evs (togglePlay s))) Pause
                   < count_list (ops (settle p Fulfilled (run evs (togglePlay s)))) Pause))
      \<and> \<not> isPlaying (settle p Fulfilled (togglePlay s))
      \<and> last (ops (settle p Fulfilled (togglePlay s))) = Pause"
    if h: "isPlaying s" "track s \<noteq> None" "audioRef s \<noteq> None" "playPromiseRef s = Some p"
      "pending s p"
  proof -
    note eq = togglePlay_pause_waits [OF h]
    have w: "TogglePauseAwait p \<in> set (waiting (togglePlay s))"
      and pe: "pending (togglePlay s) (promise_of (TogglePauseAwait p))"
      using h(5) by (simp_all add: eq pending_def)
    have "TogglePauseAwait p \<in> set (waiting (run evs (togglePlay s)))
           \<and> pending (run evs (togglePlay s)) p
           \<and> ops (settle p (Rejected e) (run evs (togglePlay s))) = ops (run evs (togglePlay s))
           \<and> (audioRef (run evs (togglePlay s)) \<noteq> None \<longrightarrow>
                count_list (ops (run evs (togglePlay s))) Pause
                  < count_list (ops (settle p Fulfilled (run evs (togglePlay s)))) Pause)"
      if "\<forall>out. Settle p out \<notin> set evs"
    proof -
      from still_waiting_run [OF w pe] that
      have k: "TogglePauseAwait p \<in> set (waiting (run evs (togglePlay s)))"
        "pending (run evs (togglePlay s)) p"
        by simp_all
      with settle_fulfilled_pauses [OF k] ops_settle_rejected show ?thesis by simp
    qed
    moreover from settle_fulfilled_last_pause [OF h(5,3)]
    have "\<not> isPlaying (settle p Fulfilled (togglePlay s))"
      "last (ops (settle p Fulfilled (togglePlay s))) = Pause"
      by (simp_all add: eq)
    ultimately show ?thesis using eq by blast
  qed
  from click change pause show ?thesis by blast
qed

theorem starts_overlap_pauses_wait_witness:
  "\<not> isPlaying one_click_state
   \<and> track one_click_state \<noteq> None
   \<and> audioRef one_click_state \<noteq> None
   \<and> graph_available one_click_state
   \<and> pending one_click_state 0
   \<and> \<not> isInitialMount one_click_state
   \<and> track one_click_state \<noteq> Some trackB
   \<and> outstanding (togglePlay one_click_state) = [0, 1]
   \<and> outstanding (setTrack (Some trackB) one_click_state) = [0, 1]
   \<and> isPlaying pause_intent_state
   \<and> track pause_intent_state = Some trackB
   \<and> audioRef pause_intent_state \<noteq> None
   \<and> playPromiseRef pause_intent_state = Some 1
   \<and> pending pause_intent_state 1
   \<and> togglePlay pause_intent_state
       = pause_intent_state\<lparr>waiting := waiting pause_intent_state @ [TogglePauseAwait 1]\<rparr>
   \<and> TogglePauseAwait 1 \<in> set (waiting (run [TimeUpdate 5] (togglePlay pause_intent_state)))
   \<and> count_list (ops (run [TimeUpdate 5] (togglePlay pause_intent_state))) Pause
       < count_list (ops (settle 1 Fulfilled (run [TimeUpdate 5] (togglePlay pause_intent_state))))
           Pause
   \<and> \<not> isPlaying (settle 1 Fulfilled (togglePlay pause_intent_state))
   \<and> last (ops (settle 1 Fulfilled (togglePlay pause_intent_state))) = Pause"
  using starts_overlap_pauses_wait [of one_click_state 0 trackB 1 "[TimeUpdate 5]"]
    starts_overlap_pauses_wait [of pause_intent_state 0 trackB 1 "[TimeUpdate 5]"]
  by (simp add: one_click_state_def pause_intent_state_def eval_defs graph_available_def
      outstanding_def)

section \<open>C2: a superseded start\<close>

text \<open>
  C2, as stated, fails: the track changes from B to C while the start issued for B is
  pending. Nothing in the continuation of line 64 looks at the track, so when that start is
  fulfilled \<open>isPlaying\<close> becomes true although C is the current track.
\<close>

theorem stale_fulfilment_sets_isPlaying:
  "stale superseded_state 0
   \<and> issued_for (promises superseded_state ! 0) = url trackB
   \<and> track superseded_state = Some trackC
   \<and> \<not> isPlaying superseded_state
   \<and> isPlaying (settle 0 Fulfilled superseded_state)"
  by (simp add: superseded_state_def stale_def pending_def platform_defs handler_defs
      track_defs)

text \<open>
  C2, amended: a start that settles by rejection (what a reload does to the start it
  supersedes) never turns \<open>isPlaying\<close> on, for whatever track it was issued: if
  \<open>isPlaying\<close> is false before the settlement, it is false after it. A pending start
  that is fulfilled, with only its own continuation waiting for it, sets \<open>isPlaying\<close>
  and leaves the track as it is: no track is compared.
\<close>

theorem superseded_start_settlement:
  "(\<not> isPlaying s \<longrightarrow> \<not> isPlaying (settle p (Rejected e) s))
   \<and> (pending s p
       \<and> (filter (\<lambda>k. promise_of k = p) (waiting s) = [AttemptPlayAwait p]
           \<or> filter (\<lambda>k. promise_of k = p) (waiting s) = [TogglePlayAwait p]) \<longrightarrow>
      isPlaying (settle p Fulfilled s) \<and> track (settle p Fulfilled s) = track s)"
proof -
  have "\<not> isPlaying s \<longrightarrow> \<not> isPlaying (settle p (Rejected e) s)"
    by (auto simp: settle_def dest!: fold_resume_rejected_isPlaying)
  moreover have "isPlaying (settle p Fulfilled s) \<and> track (settle p Fulfilled s) = track s"
    if "pending s p" "filter (\<lambda>k. promise_of k = p) (waiting s) = [AttemptPlayAwait p]
           \<or> filter (\<lambda>k. promise_of k = p) (waiting s) = [TogglePlayAwait p]"
    using that settle_single [of s p _ Fulfilled] by auto
  ultimately show ?thesis by blast
qed

theorem superseded_start_settlement_witness:
  "stale superseded_state 0 \<and> \<not> isPlaying superseded_state
   \<and> \<not> isPlaying (settle 0 (Rejected (Exn ''AbortError'')) superseded_state)
   \<and> pending superseded_state 0
   \<and> filter (\<lambda>k. promise_of k = 0) (waiting superseded_state) = [AttemptPlayAwait 0]
   \<and> isPlaying (settle 0 Fulfilled superseded_state)
   \<and> track (settle 0 Fulfilled superseded_state) = Some trackC"
  using superseded_start_settlement [of superseded_state 0 "Exn ''AbortError''"]
  by (simp add: superseded_state_def stale_def pending_def platform_defs handler_defs
      track_defs)

section \<open>C3: no autoplay on the first track, autoplay on the later ones\<close>

text \<open>
  C3: the first assignment of a track, at mount or after a mount without a track, only
  reloads the element: no start is issued and \<open>isPlaying\<close> stays false; more generally,
  as long as \<open>isInitialMount\<close> is set the effect reloads, clears the flag and does nothing
  else. After it, \<open>isPlaying\<close> stays false and no start exists through every sequence of
  events without a click on the transport button and without a change of track. In every
  state of a run that began with a track, a change to another track reloads and runs
  \<open>attemptPlay\<close>: it ensures the audio graph, calls \<open>play()\<close> as its last call on the
  element and waits for that start, and when the start is fulfilled \<open>isPlaying\<close> is true.
  (The attempt ends before \<open>play()\<close> only when the constructor of the audio context
  throws.)
\<close>

theorem cold_start_then_autoplay:
  "mount ctor (Some t) = setTrack (Some t) (mount ctor None)
   \<and> \<not> isPlaying (mount ctor (Some t))
   \<and> promises (mount ctor (Some t)) = []
   \<and> ops (mount ctor (Some t)) = [Load]
   \<and> (isInitialMount s \<and> track s \<noteq> Some t \<longrightarrow>
        setTrack (Some t) s =
          (render (Some t) s)\<lparr>error := None, ops := ops s @ [Load], isInitialMount := False\<rparr>)
   \<and> (list_all no_intent evs \<longrightarrow>
        \<not> isPlaying (run evs (mount ctor (Some t)))
        \<and> promises (run evs (mount ctor (Some t))) = [])
   \<and> (track (run evs' (mount ctor (Some t))) \<noteq> Some t' \<longrightarrow>
        (let s = run evs' (mount ctor (Some t));
             p = length (promises s);
             s' = setTrack (Some t') s
         in if graph_available s then
              promises s' = promises s @ [\<lparr>issued_for = url t', status = Pending\<rparr>]
              \<and> prefix (ops s @ [Load]) (ops s')
              \<and> last (ops s') = Play p
              \<and> waiting s' = waiting s @ [AttemptPlayAwait p]
              \<and> isPlaying s' = isPlaying s
              \<and> isPlaying (settle p Fulfilled s')
            else
              promises s' = promises s \<and> ops s' = ops s @ [Load] \<and> \<not> isPlaying s'))"
proof -
  have m: "mount ctor (Some t) = setTrack (Some t) (mount ctor None)"
    by (simp add: mount_def setTrack_def render_def initial_def trackEffect_def)
  have q: "\<not> isPlaying (mount ctor (Some t))" "promises (mount ctor (Some t)) = []"
    "ops (mount ctor (Some t)) = [Load]" "\<not> isInitialMount (mount ctor (Some t))"
    by (simp_all add: mount_track)
  have first: "isInitialMount s \<and> track s \<noteq> Some t \<longrightarrow>
        setTrack (Some t) s =
          (render (Some t) s)\<lparr>error := None, ops := ops s @ [Load], isInitialMount := False\<rparr>"
    using setTrack_first by blast
  have quiet: "list_all no_intent evs \<longrightarrow>
        \<not> isPlaying (run evs (mount ctor (Some t)))
        \<and> promises (run evs (mount ctor (Some t))) = []"
    using quiet_run [OF _ q(1,2)] by blast
  define s where "s = run evs' (mount ctor (Some t))"
  have w: "well_formed s" unfolding s_def by (rule well_formed_run [OF well_formed_mount])
  have ni: "\<not> isInitialMount s" unfolding s_def using isInitialMount_run q(4) by blast
  have later: "track s \<noteq> Some t' \<longrightarrow>
        (let p = length (promises s);
             s' = setTrack (Some t') s
         in if graph_available s then
              promises s' = promises s @ [\<lparr>issued_for = url t', status = Pending\<rparr>]
              \<and> prefix (ops s @ [Load]) (ops s')
              \<and> last (ops s') = Play p
              \<and> waiting s' = waiting s @ [AttemptPlayAwait p]
              \<and> isPlaying s' = isPlaying s
              \<and> isPlaying (settle p Fulfilled s')
            else
              promises s' = promises s \<and> ops s' = ops s @ [Load] \<and> \<not> isPlaying s')"
  proof (intro impI)
    assume tr: "track s \<noteq> Some t'"
    show "let p = length (promises s); s' = setTrack (Some t') s
         in if graph_available s then
              promises s' = promises s @ [\<lparr>issued_for = url t', status = Pending\<rparr>]
              \<and> prefix (ops s @ [Load]) (ops s')
              \<and> last (ops s') = Play p
              \<and> waiting s' = waiting s @ [AttemptPlayAwait p]
              \<and> isPlaying s' = isPlaying s
              \<and> isPlaying (settle p Fulfilled s')
            else
              promises s' = promises s \<and> ops s' = ops s @ [Load] \<and> \<not> isPlaying s'"
    proof (cases "graph_available s")
      case True
      from setTrack_autoplay [OF tr ni True] setTrack_autoplay_settled(1) [OF w tr ni True] True
      show ?thesis by (simp add: Let_def)
    next
      case False
      from setTrack_graph_failure [OF tr ni False] obtain e where
        "setTrack (Some t') s =
           (render (Some t') s)\<lparr>error := None, ops := ops s @ [Load],
              console := console s @ (if exn_name e \<noteq> ''AbortError''
                                      then [''Playback failed or was prevented:''] else []),
              isPlaying := False, playPromiseRef := None\<rparr>"
        by blast
      with False show ?thesis by (simp add: Let_def render_def)
    qed
  qed
  from m q(1,2,3) first quiet later show ?thesis unfolding s_def Let_def by blast
qed

theorem cold_start_then_autoplay_witness:
  "isInitialMount (mount (Inr Suspended) None)
   \<and> track (mount (Inr Suspended) None) \<noteq> Some trackA
   \<and> list_all no_intent [TimeUpdate 3, MediaError]
   \<and> \<not> isPlaying (run [TimeUpdate 3, MediaError] (mount (Inr Suspended) (Some trackA)))
   \<and> track (run [TimeUpdate 3] (mount (Inr Suspended) (Some trackA))) \<noteq> Some trackB
   \<and> graph_available (run [TimeUpdate 3] (mount (Inr Suspended) (Some trackA)))
   \<and> \<not> isPlaying (setTrack (Some trackB) (run [TimeUpdate 3] (mount (Inr Suspended) (Some trackA))))
   \<and> last (ops (setTrack (Some trackB) (run [TimeUpdate 3] (mount (Inr Suspended) (Some trackA)))))
       = Play 0
   \<and> isPlaying (settle 0 Fulfilled
        (setTrack (Some trackB) (run [TimeUpdate 3] (mount (Inr Suspended) (Some trackA)))))"
  using cold_start_then_autoplay [of "Inr Suspended" trackA "mount (Inr Suspended) None"
      "[TimeUpdate 3, MediaError]" "[TimeUpdate 3]" trackB]
  by (simp add: eval_defs graph_available_def Let_def)

section \<open>C4: a failed start on the explicit and on the automatic path\<close>

text \<open>
  C4: in a state of a run, paused, with a track and the element, a click on play issues a
  start. If that start is rejected, \<open>error\<close> is the non-empty message
  \<open>Unable to play this source.\<close> and \<open>isPlaying\<close> is false (the handler does not
  touch \<open>isPlaying\<close>); if it is fulfilled, \<open>isPlaying\<close> is true and \<open>error\<close> is
  cleared. A change of track issues a start as well; if that one is rejected, \<open>error\<close>
  is none (the handler does not touch \<open>error\<close>), \<open>isPlaying\<close> is false, and the
  failure is logged unless it is an \<open>AbortError\<close>. When the attempt fails before
  \<open>play()\<close>, on the construction of the audio context, \<open>error\<close> is none as well.
\<close>

theorem start_failure_policy:
  "(well_formed s \<and> audioRef s \<noteq> None \<and> track s \<noteq> None \<and> \<not> isPlaying s \<and> graph_available s \<longrightarrow>
      (let p = length (promises s); s1 = togglePlay s
       in last (ops s1) = Play p \<and> pending s1 p
          \<and> error (settle p (Rejected e) s1) = Some ''Unable to play this source.''
          \<and> error (settle p (Rejected e) s1) \<noteq> Some ''''
          \<and> \<not> isPlaying (settle p (Rejected e) s1)
          \<and> isPlaying (settle p Fulfilled s1)
          \<and> error (settle p Fulfilled s1) = None))
   \<and> (well_formed s \<and> \<not> isInitialMount s \<and> track s \<noteq> Some t \<and> graph_available s \<longrightarrow>
      (let p = length (promises s); s1 = setTrack (Some t) s
       in last (ops s1) = Play p \<and> pending s1 p
          \<and> error (settle p (Rejected e) s1) = None
          \<and> \<not> isPlaying (settle p (Rejected e) s1)
          \<and> console (settle p (Rejected e) s1) =
               console s @ (if exn_name e \<noteq> ''AbortError''
                            then [''Playback failed or was prevented:''] else [])))
   \<and> (\<not> isInitialMount s \<and> track s \<noteq> Some t \<and> \<not> graph_available s \<longrightarrow>
        promises (setTrack (Some t) s) = promises s
        \<and> error (setTrack (Some t) s) = None
        \<and> \<not> isPlaying (setTrack (Some t) s))
   \<and> isPlaying (resume (TogglePlayAwait q) (Rejected e) s) = isPlaying s
   \<and> error (resume (AttemptPlayAwait q) (Rejected e) s) = error s"
proof -
  have explicit: "let p = length (promises s); s1 = togglePlay s
       in last (ops s1) = Play p \<and> pending s1 p
          \<and> error (settle p (Rejected e) s1) = Some ''Unable to play this source.''
          \<and> error (settle p (Rejected e) s1) \<noteq> Some ''''
          \<and> \<not> isPlaying (settle p (Rejected e) s1)
          \<and> isPlaying (settle p Fulfilled s1)
          \<and> error (settle p Fulfilled s1) = None"
    if h: "well_formed s" "audioRef s \<noteq> None" "track s \<noteq> None" "\<not> isPlaying s" "graph_available s"
  proof -
    from h(2,3) obtain el tr where el: "audioRef s = Some el" and tr: "track s = Some tr"
      by auto
    note a = togglePlay_start [OF el tr h(4,5)]
    note b = togglePlay_start_settled [OF h(1) el tr h(4,5)]
    have "pending (togglePlay s) (length (promises s))" by (simp add: pending_def a)
    with a(4) b(1,2) b(3,4) [of e] show ?thesis by (simp add: Let_def)
  qed
  have automatic: "let p = length (promises s); s1 = setTrack (Some t) s
       in last (ops s1) = Play p \<and> pending s1 p
          \<and> error (settle p (Rejected e) s1) = None
          \<and> \<not> isPlaying (settle p (Rejected e) s1)
          \<and> console (settle p (Rejected e) s1) =
               console s @ (if exn_name e \<noteq> ''AbortError''
                            then [''Playback failed or was prevented:''] else [])"
    if h: "well_formed s" "\<not> isInitialMount s" "track s \<noteq> Some t" "graph_available s"
  proof -
    note a = setTrack_autoplay [OF h(3,2,4)]
    note b = setTrack_autoplay_settled [OF h(1,3,2,4)]
    have "pending (setTrack (Some t) s) (length (promises s))" by (simp add: pending_def a)
    with a(4) b(3,4,5) [of e] show ?thesis by (simp add: Let_def)
  qed
  have no_graph: "promises (setTrack (Some t) s) = promises s
        \<and> error (setTrack (Some t) s) = None
        \<and> \<not> isPlaying (setTrack (Some t) s)"
    if h: "\<not> isInitialMount s" "track s \<noteq> Some t" "\<not> graph_available s"
  proof -
    from setTrack_graph_failure [OF h(2,1,3)] obtain x where
      "setTrack (Some t) s =
         (render (Some t) s)\<lparr>error := None, ops := ops s @ [Load],
            console := console s @ (if exn_name x \<noteq> ''AbortError''
                                    then [''Playback failed or was prevented:''] else []),
            isPlaying := False, playPromiseRef := None\<rparr>"
      by blast
    then show ?thesis by (simp add: render_def)
  qed
  have "isPlaying (resume (TogglePlayAwait q) (Rejected e) s) = isPlaying s"
    "error (resume (AttemptPlayAwait q) (Rejected e) s) = error s"
    by (simp_all add: Let_def)
  with explicit automatic no_graph show ?thesis by blast
qed

theorem start_failure_policy_witness:
  "well_formed (mount (Inr Running) (Some trackA))
   \<and> audioRef (mount (Inr Running) (Some trackA)) \<noteq> None
   \<and> track (mount (Inr Running) (Some trackA)) \<noteq> None
   \<and> \<not> isPlaying (mount (Inr Running) (Some trackA))
   \<and> graph_available (mount (Inr Running) (Some trackA))
   \<and> \<not> isInitialMount (mount (Inr Running) (Some trackA))
   \<and> track (mount (Inr Running) (Some trackA)) \<noteq> Some trackB
   \<and> error (settle 0 (Rejected (Exn ''NotAllowedError''))
               (togglePlay (mount (Inr Running) (Some trackA))))
       = Some ''Unable to play this source.''
   \<and> \<not> isPlaying (settle 0 (Rejected (Exn ''NotAllowedError''))
                     (togglePlay (mount (Inr Running) (Some trackA))))
   \<and> isPlaying (settle 0 Fulfilled (togglePlay (mount (Inr Running) (Some trackA))))
   \<and> error (settle 0 Fulfilled (togglePlay (mount (Inr Running) (Some trackA)))) = None
   \<and> error (settle 0 (Rejected (Exn ''NotAllowedError''))
              (setTrack (Some trackB) (mount (Inr Running) (Some trackA)))) = None
   \<and> console (settle 0 (Rejected (Exn ''NotAllowedError''))
              (setTrack (Some trackB) (mount (Inr Running) (Some trackA))))
       = [''Playback failed or was prevented:'']
   \<and> \<not> graph_available (mount (Inl (Exn ''NotSupportedError'')) (Some trackA))
   \<and> error (setTrack (Some trackB) (mount (Inl (Exn ''NotSupportedError'')) (Some trackA)))
       = None"
  using start_failure_policy [of "mount (Inr Running) (Some trackA)"
      "Exn ''NotAllowedError''" trackB 0]
    start_failure_policy [of "mount (Inl (Exn ''NotSupportedError'')) (Some trackA)"
      "Exn ''NotAllowedError''" trackB 0]
  by (simp add: eval_defs graph_available_def well_formed_def Let_def)

section \<open>C5: an abort on the explicit path\<close>

text \<open>
  C5, on the code: the user clicks play on track A, then the track changes to B before the
  start has settled, and the start for A is rejected with \<open>AbortError\<close>. The \<open>catch\<close> of
  line 105 does not look at the name of the exception, unlike the one of line 68: the abort
  is logged and becomes the user-facing error, on track B.
\<close>

theorem togglePlay_abort_sets_error:
  "error abort_state = Some ''Unable to play this source.''
   \<and> console abort_state = [''Manual play failed:'']
   \<and> track abort_state = Some trackB"
  by (simp add: abort_state_def platform_defs handler_defs track_defs)

section \<open>C6: error and playing together\<close>

text \<open>
  C6, on the code: the run above continues with the start for B being fulfilled. Line 64
  sets \<open>isPlaying\<close> and leaves \<open>error\<close> as it is (line 104 clears it, line 129 clears
  \<open>isPlaying\<close> when it sets \<open>error\<close>), so the component shows an error and plays.
\<close>

theorem error_and_isPlaying_together:
  "error error_while_playing_state = Some ''Unable to play this source.''
   \<and> isPlaying error_while_playing_state"
  by (simp add: error_while_playing_state_def platform_defs handler_defs track_defs)

section \<open>C7: the audio graph is built once\<close>

text \<open>
  C7: with the element mounted, no graph yet and a constructor that yields a context in
  state \<open>st\<close>, two calls of \<open>initAudioContext\<close> in a row both return normally. The first
  one makes the six construction calls, the second one makes none: over both calls there is
  one context, one source node and one analyser node more than before. Each of the two
  calls checks the state of the context and calls \<open>resume()\<close> when it is suspended; apart
  from that call the second one changes nothing.
\<close>

theorem initAudioContext_idempotent:
  assumes "audioRef s \<noteq> None" and "audioCtxRef s = None" and "newAudioContext s = Inr st"
  shows "case initAudioContext s of
           Inl e \<Rightarrow> False
         | Inr s1 \<Rightarrow>
             (case initAudioContext s1 of
                Inl e \<Rightarrow> False
              | Inr s2 \<Rightarrow>
                  ops s1 = ops s @ graph_ops @ (if st = Suspended then [Resume] else [])
                  \<and> ops s2 = ops s1 @ (if st = Suspended then [Resume] else [])
                  \<and> s2 = s1\<lparr>ops := ops s2\<rparr>
                  \<and> audioCtxRef s1 = Some st \<and> analyser s1 = Some 256
                  \<and> count_list (ops s2) NewAudioContext = count_list (ops s) NewAudioContext + 1
                  \<and> count_list (ops s2) CreateMediaElementSource
                      = count_list (ops s) CreateMediaElementSource + 1
                  \<and> count_list (ops s2) CreateAnalyser = count_list (ops s) CreateAnalyser + 1)"
  using assms by (auto simp: initAudioContext_def graph_ops_def)

theorem initAudioContext_idempotent_witness:
  "audioRef (mount (Inr Suspended) (Some trackA)) \<noteq> None
   \<and> audioCtxRef (mount (Inr Suspended) (Some trackA)) = None
   \<and> newAudioContext (mount (Inr Suspended) (Some trackA)) = Inr Suspended
   \<and> (case initAudioContext (mount (Inr Suspended) (Some trackA)) of
         Inl e \<Rightarrow> False
       | Inr s1 \<Rightarrow>
           (case initAudioContext s1 of
              Inl e \<Rightarrow> False
            | Inr s2 \<Rightarrow>
                ops s1 = [Load] @ graph_ops @ [Resume]
                \<and> ops s2 = ops s1 @ [Resume]
                \<and> count_list (ops s2) NewAudioContext = 1))"
  using initAudioContext_idempotent [of "mount (Inr Suspended) (Some trackA)" Suspended]
  by (simp add: platform_defs trackEffect_def track_defs initAudioContext_def graph_ops_def)

section \<open>C8: where failures end\<close>

text \<open>
  C8, as stated, fails: in a browser whose \<open>AudioContext\<close> constructor throws, a change
  of track and then a click on play. Neither path reaches \<open>play()\<close>: the element is only
  reloaded, twice, and nothing plays. On the click the exception leaves \<open>togglePlay\<close>
  uncaught, since line 95 stands before the \<open>try\<close>.
\<close>

theorem graph_failure_stops_playback:
  "unhandled graph_failure_state = [Exn ''NotSupportedError'']
   \<and> ops graph_failure_state = [Load, Load]
   \<and> promises graph_failure_state = []
   \<and> \<not> isPlaying graph_failure_state"
  by (simp add: graph_failure_state_def eval_defs)

text \<open>
  C8, amended: no exception leaves the effect on the track, the settlement of a start
  (fulfilled or rejected, on either path, or while a pause waits for it) or any event other
  than a click; none leaves a click either when the component is playing or the audio graph
  can be ensured. A failure of the audio-context construction during the automatic attempt
  is caught too, but it ends the attempt: the element is reloaded, no start is issued,
  \<open>isPlaying\<close> is false and \<open>error\<close> is none.
\<close>

theorem failures_handled_locally:
  "unhandled (setTrack t s) = unhandled s
   \<and> unhandled (settle p out s) = unhandled s
   \<and> (ev \<noteq> ClickToggle \<longrightarrow> unhandled (step ev s) = unhandled s)
   \<and> (isPlaying s \<or> graph_available s \<longrightarrow> unhandled (togglePlay s) = unhandled s)
   \<and> (track s \<noteq> Some t' \<and> \<not> isInitialMount s \<and> \<not> graph_available s \<longrightarrow>
        unhandled (setTrack (Some t') s) = unhandled s
        \<and> ops (setTrack (Some t') s) = ops s @ [Load]
        \<and> promises (setTrack (Some t') s) = promises s
        \<and> \<not> isPlaying (setTrack (Some t') s)
        \<and> error (setTrack (Some t') s) = None)"
proof -
  have "ops (setTrack (Some t') s) = ops s @ [Load]
        \<and> promises (setTrack (Some t') s) = promises s
        \<and> \<not> isPlaying (setTrack (Some t') s)
        \<and> error (setTrack (Some t') s) = None"
    if h: "track s \<noteq> Some t'" "\<not> isInitialMount s" "\<not> graph_available s"
  proof -
    from setTrack_graph_failure [OF h] obtain e where
      "setTrack (Some t') s =
         (render (Some t') s)\<lparr>error := None, ops := ops s @ [Load],
            console := console s @ (if exn_name e \<noteq> ''AbortError''
                                    then [''Playback failed or was prevented:''] else []),
            isPlaying := False, playPromiseRef := None\<rparr>"
      by blast
    then show ?thesis by (simp add: render_def)
  qed
  with unhandled_step [of ev s] unhandled_togglePlay [of s] show ?thesis by simp
qed

theorem failures_handled_locally_witness:
  "track (mount (Inl (Exn ''NotSupportedError'')) (Some trackA)) \<noteq> Some trackB
   \<and> \<not> isInitialMount (mount (Inl (Exn ''NotSupportedError'')) (Some trackA))
   \<and> \<not> graph_available (mount (Inl (Exn ''NotSupportedError'')) (Some trackA))
   \<and> MediaError \<noteq> ClickToggle
   \<and> unhandled (setTrack (Some trackB) (mount (Inl (Exn ''NotSupportedError'')) (Some trackA)))
       = []
   \<and> ops (setTrack (Some trackB) (mount (Inl (Exn ''NotSupportedError'')) (Some trackA)))
       = [Load, Load]
   \<and> \<not> isPlaying (setTrack (Some trackB) (mount (Inl (Exn ''NotSupportedError'')) (Some trackA)))
   \<and> graph_available (mount (Inr Running) (Some trackA))
   \<and> unhandled (togglePlay (mount (Inr Running) (Some trackA))) = []"
  using failures_handled_locally [of "Some trackB"
      "mount (Inl (Exn ''NotSupportedError'')) (Some trackA)" 0 Fulfilled MediaError trackB]
    failures_handled_locally [of "Some trackB" "mount (Inr Running) (Some trackA)" 0 Fulfilled
      MediaError trackB]
  by (simp add: eval_defs graph_available_def)

section \<open>C9: seeking\<close>

text \<open>
  C9: with the element mounted, \<open>handleSeek t\<close> sets the position of the element to \<open>t\<close>
  and the displayed \<open>currentTime\<close> to \<open>t\<close> in the same step, with no event of the element
  in between. A time-update handled right after it reads \<open>t\<close> back from the element, and a
  time-update fired at a position \<open>p \<ge> t\<close> displays \<open>p\<close>, which is not below \<open>t\<close>.
\<close>

theorem handleSeek_optimistic:
  "audioRef s \<noteq> None \<Longrightarrow>
     map_option position (audioRef (handleSeek t s)) = Some t
     \<and> currentTime (handleSeek t s) = t
     \<and> currentTime (handleTimeUpdate (handleSeek t s)) = t
     \<and> (\<forall>p. t \<le> p \<longrightarrow> currentTime (step (TimeUpdate p) (handleSeek t s)) = p
                       \<and> t \<le> currentTime (step (TimeUpdate p) (handleSeek t s)))"
  by (auto simp: handler_defs split: option.splits)

theorem handleSeek_optimistic_witness:
  "audioRef (mount (Inr Running) (Some trackA)) \<noteq> None
   \<and> map_option position (audioRef (handleSeek 30 (mount (Inr Running) (Some trackA)))) = Some 30
   \<and> currentTime (handleSeek 30 (mount (Inr Running) (Some trackA))) = 30
   \<and> (30::real) \<le> 31
   \<and> currentTime (step (TimeUpdate 31) (handleSeek 30 (mount (Inr Running) (Some trackA)))) = 31"
  using handleSeek_optimistic [of "mount (Inr Running) (Some trackA)" 30]
  by (simp add: platform_defs trackEffect_def track_defs)

section \<open>C10: toggling without a track\<close>

text \<open>
  C10: without a track, or without the element, \<open>togglePlay\<close> returns the state it was
  given: no field changes (\<open>isPlaying\<close>, \<open>currentTime\<close>, \<open>duration\<close> and \<open>error\<close>
  among them) and nothing is appended to the log of calls on the element.
\<close>

theorem togglePlay_without_track_or_element:
  "track s = None \<or> audioRef s = None \<Longrightarrow> togglePlay s = s"
  by (auto simp: togglePlay_def split: option.splits)

theorem togglePlay_without_track_or_element_witness:
  "(track (mount (Inr Running) None) = None \<or> audioRef (mount (Inr Running) None) = None)
   \<and> togglePlay (mount (Inr Running) None) = mount (Inr Running) None"
  using togglePlay_without_track_or_element [of "mount (Inr Running) None"]
  by (simp add: platform_defs trackEffect_def)

end
